theory Spec2Isabelle
  imports Main
begin

section \<open>The store as vfsutils.ts sees it\<close>

text \<open>
  A path is kept in the canonical absolute form that \<^verbatim>\<open>vpath.resolve(fs.cwd(), path)\<close>
  produces: the list of its segments, the root first. The root itself is the empty list.
\<close>

type_synonym path = "string list"

datatype error = ENOENT | StoreFailure

text \<open>
  The fields of \<^verbatim>\<open>vfs.Stats\<close> that vfsutils.ts reads: \<^verbatim>\<open>isFile()\<close>,
  \<^verbatim>\<open>isDirectory()\<close>, \<^verbatim>\<open>mtimeMs\<close> and \<^verbatim>\<open>size\<close>. A time in milliseconds and a size
  are natural numbers.
\<close>

record stats =
  isFile :: bool
  isDirectory :: bool
  mtimeMs :: nat
  fsize :: nat

text \<open>
  Modelled from the spec: the class \<^verbatim>\<open>vfs.Stats\<close> is not part of the sources, so the value
  of \<^verbatim>\<open>new vfs.Stats()\<close> is taken from the spec's absent snapshot
  \<^verbatim>\<open>{exists:false, isDirectory:false, modTimeMillis:0}\<close>.
\<close>

definition newStats :: stats where
  "newStats = \<lparr>isFile = False, isDirectory = False, mtimeMs = 0, fsize = 0\<rparr>"

text \<open>
  One state of \<^verbatim>\<open>vfs.FileSystem\<close>, as far as vfsutils.ts calls it. An operation that
  throws returns \<open>Inl\<close>.
\<close>

record FileSystem =
  statSync :: "path \<Rightarrow> error + stats"
  readdirSync :: "path \<Rightarrow> error + string list"
  stringComparer :: "string \<Rightarrow> string \<Rightarrow> int"

section \<open>Stat helpers\<close>

text \<open>\<^verbatim>\<open>try { return fs.statSync(path); } catch { return undefined; }\<close>\<close>

definition getStats :: "FileSystem \<Rightarrow> path \<Rightarrow> stats option" where
  "getStats fs p = (case statSync fs p of Inr s \<Rightarrow> Some s | Inl e \<Rightarrow> None)"

definition getFileSize :: "FileSystem \<Rightarrow> path \<Rightarrow> nat" where
  "getFileSize fs p =
     (case getStats fs p of Some s \<Rightarrow> (if isFile s then fsize s else 0) | None \<Rightarrow> 0)"

definition getModifiedTime :: "FileSystem \<Rightarrow> path \<Rightarrow> nat option" where
  "getModifiedTime fs p = (case getStats fs p of Some s \<Rightarrow> Some (mtimeMs s) | None \<Rightarrow> None)"

definition fileExists :: "FileSystem \<Rightarrow> path \<Rightarrow> bool" where
  "fileExists fs p = (case getStats fs p of Some s \<Rightarrow> isFile s | None \<Rightarrow> False)"

definition directoryExists :: "FileSystem \<Rightarrow> path \<Rightarrow> bool" where
  "directoryExists fs p = (case getStats fs p of Some s \<Rightarrow> isDirectory s | None \<Rightarrow> False)"

text \<open>The expression \<^verbatim>\<open>getStats(fs, path) || new vfs.Stats()\<close> of \<^verbatim>\<open>watchFile\<close>.\<close>

definition statsOrNew :: "FileSystem \<Rightarrow> path \<Rightarrow> stats" where
  "statsOrNew fs p = (case getStats fs p of Some s \<Rightarrow> s | None \<Rightarrow> newStats)"

section \<open>Listing a directory\<close>

record entries =
  files :: "string list"
  directories :: "string list"

text \<open>
  The body of the \<^verbatim>\<open>for\<close> loop of \<^verbatim>\<open>getAccessibleFileSystemEntries\<close>: the inner
  \<^verbatim>\<open>try\<close> drops an entry whose stat throws. \<^verbatim>\<open>vpath.combine\<close> is not part of the
  sources and is a parameter.
\<close>

definition addEntry ::
  "FileSystem \<Rightarrow> (path \<Rightarrow> string \<Rightarrow> path) \<Rightarrow> path \<Rightarrow> string \<Rightarrow> entries \<Rightarrow> entries" where
  "addEntry fs combine p file acc =
     (case statSync fs (combine p file) of
        Inl e \<Rightarrow> acc
      | Inr s \<Rightarrow>
          if isFile s then acc\<lparr>files := files acc @ [file]\<rparr>
          else if isDirectory s then acc\<lparr>directories := directories acc @ [file]\<rparr>
          else acc)"

fun entriesLoop ::
  "FileSystem \<Rightarrow> (path \<Rightarrow> string \<Rightarrow> path) \<Rightarrow> path \<Rightarrow> string list \<Rightarrow> entries \<Rightarrow> entries" where
  "entriesLoop fs combine p [] acc = acc"
| "entriesLoop fs combine p (file # rest) acc =
     entriesLoop fs combine p rest (addEntry fs combine p file acc)"

definition getAccessibleFileSystemEntries ::
  "FileSystem \<Rightarrow> (path \<Rightarrow> string \<Rightarrow> path) \<Rightarrow> path \<Rightarrow> entries" where
  "getAccessibleFileSystemEntries fs combine p =
     (case readdirSync fs p of
        Inl e \<Rightarrow> \<lparr>files = [], directories = []\<rparr>
      | Inr names \<Rightarrow> entriesLoop fs combine p names \<lparr>files = [], directories = []\<rparr>)"

section \<open>The callback of watchFile\<close>

datatype FileWatcherEventKind = Created | Changed | Deleted

text \<open>The two variables \<^verbatim>\<open>prevStats\<close> and \<^verbatim>\<open>exists\<close> that the closure of \<^verbatim>\<open>watchFile\<close> owns.\<close>

record fileWatch =
  prevStats :: stats
  exists :: bool

definition eventKindOf :: "nat \<Rightarrow> nat \<Rightarrow> FileWatcherEventKind" where
  "eventKindOf currTime prevTime =
     (if currTime \<noteq> 0 \<and> prevTime = 0 then Created
      else if currTime = 0 \<and> prevTime \<noteq> 0 then Deleted
      else Changed)"

text \<open>
  One run of the function that \<^verbatim>\<open>watchFile\<close> hands to \<^verbatim>\<open>fsWatch\<close>. It ignores the
  event type and the file name it is called with. The result is the new pair of variables
  and the arguments of the call of \<^verbatim>\<open>callback\<close>, if it is called.
\<close>

definition watchFileCallback ::
  "FileSystem \<Rightarrow> path \<Rightarrow> fileWatch \<Rightarrow> fileWatch \<times> (path \<times> FileWatcherEventKind) option" where
  "watchFileCallback fs p w =
     (let currStats = statsOrNew fs p;
          currTime = mtimeMs currStats;
          prevTime = mtimeMs (prevStats w);
          eventKind = eventKindOf currTime prevTime
      in if eventKind = Created \<and> \<not> exists w then (w\<lparr>exists := True\<rparr>, None)
         else if eventKind = Changed \<and> currTime \<le> prevTime then (w, None)
         else (\<lparr>prevStats = currStats, exists = (eventKind \<noteq> Deleted)\<rparr>, Some (p, eventKind)))"

text \<open>The initial values of the two variables.\<close>

definition watchFileInit :: "FileSystem \<Rightarrow> path \<Rightarrow> fileWatch" where
  "watchFileInit fs p = \<lparr>prevStats = statsOrNew fs p, exists = fileExists fs p\<rparr>"

section \<open>The callback of watchDirectory\<close>

text \<open>
  The function that \<^verbatim>\<open>watchDirectory\<close> hands to \<^verbatim>\<open>fsWatch\<close>. A file name is a
  string, and the empty string is the falsy one. \<^verbatim>\<open>vpath.resolve\<close> is not part of the
  sources and is a parameter. The result is the list of the arguments \<^verbatim>\<open>callback\<close> is
  called with.
\<close>

definition watchDirectoryCallback ::
  "(path \<Rightarrow> string \<Rightarrow> path) \<Rightarrow> path \<Rightarrow> string \<Rightarrow> string \<Rightarrow> path list" where
  "watchDirectoryCallback resolve p eventType filename =
     (if eventType = ''rename'' then [if filename \<noteq> [] then resolve p filename else p]
      else [])"

section \<open>Registrations of the store\<close>

text \<open>
  What \<^verbatim>\<open>fs.watch\<close> and the \<^verbatim>\<open>close\<close> of the object it returns do to the store, in the
  order in which they happen. A registration is named by a number.
\<close>

datatype action = Open nat path | Close nat

record registrations =
  nextId :: nat
  trace :: "action list"

fun applyAction :: "nat list \<Rightarrow> action \<Rightarrow> nat list" where
  "applyAction live (Open r p) = live @ [r]"
| "applyAction live (Close r) = removeAll r live"

text \<open>The registrations that are open after the actions of a trace.\<close>

definition liveRegs :: "action list \<Rightarrow> nat list" where
  "liveRegs tr = foldl applyAction [] tr"

definition isLive :: "registrations \<Rightarrow> nat \<Rightarrow> bool" where
  "isLive \<sigma> r = (r \<in> set (liveRegs (trace \<sigma>)))"

text \<open>
  Modelled from the spec: \<^verbatim>\<open>vfs.FileSystem.watch\<close> is not part of the sources.
  \<^verbatim>\<open>watch(path, onNotify)\<close> returns a new registration for the path.
\<close>

definition openReg :: "path \<Rightarrow> registrations \<Rightarrow> nat \<times> registrations" where
  "openReg p \<sigma> = (nextId \<sigma>, \<lparr>nextId = Suc (nextId \<sigma>), trace = trace \<sigma> @ [Open (nextId \<sigma>) p]\<rparr>)"

text \<open>
  Modelled from the spec: the watcher object that \<^verbatim>\<open>vfs.FileSystem.watch\<close> returns is not
  part of the sources. Its \<^verbatim>\<open>close()\<close> releases the registration. The spec's "repeated
  close calls are a no-op" is read for the registration too: closing a registration that
  is not open changes nothing and is not recorded in the trace.
\<close>

definition closeReg :: "nat \<Rightarrow> registrations \<Rightarrow> registrations" where
  "closeReg r \<sigma> = (if isLive \<sigma> r then \<sigma>\<lparr>trace := trace \<sigma> @ [Close r]\<rparr> else \<sigma>)"

section \<open>fsWatch\<close>

text \<open>
  Modelled from the spec: vpath.ts is not part of the sources. On a canonical absolute
  path \<^verbatim>\<open>vpath.dirname\<close> drops the last segment; the root is its own parent.
\<close>

definition dirname :: "path \<Rightarrow> path" where
  "dirname p = butlast p"

text \<open>
  Modelled from the spec: vpath.ts is not part of the sources. \<^verbatim>\<open>vpath.basename\<close> is the
  last segment of the path; the root has the empty base name.
\<close>

definition basename :: "path \<Rightarrow> string" where
  "basename p = (if p = [] then [] else last p)"

text \<open>The parameter \<^verbatim>\<open>exists\<close> of \<^verbatim>\<open>fsWatch\<close>; the source passes one of two functions.\<close>

datatype existsFn = FileExists | DirectoryExists

fun existsTest :: "existsFn \<Rightarrow> FileSystem \<Rightarrow> path \<Rightarrow> bool" where
  "existsTest FileExists fs p = fileExists fs p"
| "existsTest DirectoryExists fs p = directoryExists fs p"

text \<open>
  The value of the variable \<^verbatim>\<open>watcher\<close> of one call of \<^verbatim>\<open>fsWatch\<close>: the registration
  that \<^verbatim>\<open>watchPresent\<close> opened on the path itself, or the object that the inner
  \<^verbatim>\<open>fsWatch\<close> of \<^verbatim>\<open>watchMissing\<close> returned for the parent directory, which has a
  variable \<^verbatim>\<open>watcher\<close> of its own.
\<close>

datatype watcher = Present nat | Missing watcher

definition watchPresent :: "path \<Rightarrow> registrations \<Rightarrow> watcher \<times> registrations" where
  "watchPresent p \<sigma> = (case openReg p \<sigma> of (r, \<sigma>') \<Rightarrow> (Present r, \<sigma>'))"

function fsWatch ::
    "FileSystem \<Rightarrow> path \<Rightarrow> existsFn \<Rightarrow> registrations \<Rightarrow> error + (watcher \<times> registrations)"
  and watchMissing ::
    "FileSystem \<Rightarrow> path \<Rightarrow> registrations \<Rightarrow> error + (watcher \<times> registrations)" where
  "fsWatch fs p ex \<sigma> =
     (if \<not> existsTest ex fs p then watchMissing fs p \<sigma> else Inr (watchPresent p \<sigma>))"
| "watchMissing fs p \<sigma> =
     (if dirname p = p then Inl ENOENT
      else case fsWatch fs (dirname p) DirectoryExists \<sigma> of
             Inl e \<Rightarrow> Inl e
           | Inr (w, \<sigma>') \<Rightarrow> Inr (Missing w, \<sigma>'))"
  by pat_completeness auto
termination
proof (relation "measure (\<lambda>x. case x of Inl (fs, p, ex, \<sigma>) \<Rightarrow> 2 * length p + 1
                                        | Inr (fs, p, \<sigma>) \<Rightarrow> 2 * length p)")
  fix p :: path
  assume "dirname p \<noteq> p"
  then have "length (dirname p) < length p"
    by (cases p rule: rev_cases) (simp_all add: dirname_def)
  then show "\<And>fs \<sigma>. (Inl (fs, dirname p, DirectoryExists, \<sigma>), Inr (fs, p, \<sigma>))
      \<in> measure (\<lambda>x. case x of Inl (fs, p, ex, \<sigma>) \<Rightarrow> 2 * length p + 1
                             | Inr (fs, p, \<sigma>) \<Rightarrow> 2 * length p)"
    by simp
qed simp_all

declare fsWatch.simps [simp del] watchMissing.simps [simp del]

text \<open>
  The method \<^verbatim>\<open>close\<close> of the object \<^verbatim>\<open>fsWatch\<close> returns: \<^verbatim>\<open>watcher.close()\<close>, which
  is the store's \<^verbatim>\<open>close\<close> of a registration or the \<^verbatim>\<open>close\<close> of the inner object. The
  store's operation is a parameter of \<open>closeWith\<close>; \<open>closeWatcher\<close> is the instance for
  the registrations above.
\<close>

fun closeWith :: "(nat \<Rightarrow> 's \<Rightarrow> 's) \<Rightarrow> watcher \<Rightarrow> 's \<Rightarrow> 's" where
  "closeWith closeOne (Present r) \<sigma> = closeOne r \<sigma>"
| "closeWith closeOne (Missing w) \<sigma> = closeWith closeOne w \<sigma>"

definition closeWatcher :: "watcher \<Rightarrow> registrations \<Rightarrow> registrations" where
  "closeWatcher w \<sigma> = closeWith closeReg w \<sigma>"

text \<open>
  What the store delivers: a notification with an event type and a file name to the
  function registered with \<^verbatim>\<open>fs.watch\<close>, or the event \<^verbatim>\<open>"error"\<close> to the handler
  installed with \<^verbatim>\<open>on\<close>.
\<close>

datatype storeEvent = Notification nat string string | ErrorEvent nat

text \<open>
  Modelled from the spec: which registration the store calls is decided in vfs.ts, which is
  not part of the sources. An event addressed to registration \<open>r'\<close> reaches the handlers
  of registration \<open>r\<close> when they are the same and the registration is open; the store
  delivers nothing to a registration that is closed.
\<close>

definition delivered :: "registrations \<Rightarrow> nat \<Rightarrow> nat \<Rightarrow> bool" where
  [simp]: "delivered \<sigma> r' r = (r' = r \<and> isLive \<sigma> r)"

text \<open>
  One event of the store, handled by the call of \<^verbatim>\<open>fsWatch\<close> for path \<open>p\<close> whose variable
  \<^verbatim>\<open>watcher\<close> holds \<open>w\<close>. The result is the new value of the variable, the registrations,
  and the arguments with which the parameter \<^verbatim>\<open>callback\<close> of this call is called; that call
  is the last statement of each handler, so it is made after the registrations changed.

  \<^item> \<open>Present r\<close>: the registration was made with \<^verbatim>\<open>callback\<close> itself, and its error handler
    is the one of \<^verbatim>\<open>watchPresent\<close>.
  \<^item> \<open>Missing w'\<close>: the inner call runs for the parent directory with
    \<^verbatim>\<open>directoryExists\<close>, and what it calls is the filter function of \<^verbatim>\<open>watchMissing\<close>.
\<close>

fun fsWatchEvent ::
  "FileSystem \<Rightarrow> path \<Rightarrow> existsFn \<Rightarrow> watcher \<Rightarrow> storeEvent \<Rightarrow> registrations \<Rightarrow>
     error + (watcher \<times> registrations \<times> (string \<times> string) option)" where
  "fsWatchEvent fs p ex (Present r) (Notification r' eventType filename) \<sigma> =
     (if delivered \<sigma> r' r then Inr (Present r, \<sigma>, Some (eventType, filename))
      else Inr (Present r, \<sigma>, None))"
| "fsWatchEvent fs p ex (Present r) (ErrorEvent r') \<sigma> =
     (if delivered \<sigma> r' r \<and> \<not> existsTest ex fs p then
        (case watchMissing fs p (closeWatcher (Present r) \<sigma>) of
           Inl e \<Rightarrow> Inl e
         | Inr (w', \<sigma>') \<Rightarrow> Inr (w', \<sigma>', Some (''rename'', [])))
      else Inr (Present r, \<sigma>, None))"
| "fsWatchEvent fs p ex (Missing w) ev \<sigma> =
     (case fsWatchEvent fs (dirname p) DirectoryExists w ev \<sigma> of
        Inl e \<Rightarrow> Inl e
      | Inr (w', \<sigma>', None) \<Rightarrow> Inr (Missing w', \<sigma>', None)
      | Inr (w', \<sigma>', Some (eventType, filename)) \<Rightarrow>
          if eventType = ''rename'' \<and> stringComparer fs (basename p) filename = 0
             \<and> existsTest ex fs p
          then (case watchPresent p (closeWatcher (Missing w') \<sigma>') of
                  (w'', \<sigma>'') \<Rightarrow> Inr (w'', \<sigma>'', Some (''rename'', [])))
          else Inr (Missing w', \<sigma>', None))"

text \<open>
  A watcher driven by a list of events; each event comes with the state of the store at
  the time it is delivered. The calls of \<^verbatim>\<open>callback\<close> are collected in order.
\<close>

fun fsWatchRun ::
  "path \<Rightarrow> existsFn \<Rightarrow> (FileSystem \<times> storeEvent) list \<Rightarrow> watcher \<Rightarrow> registrations \<Rightarrow>
     error + (watcher \<times> registrations \<times> (string \<times> string) list)" where
  "fsWatchRun p ex [] w \<sigma> = Inr (w, \<sigma>, [])"
| "fsWatchRun p ex ((fs, ev) # rest) w \<sigma> =
     (case fsWatchEvent fs p ex w ev \<sigma> of
        Inl e \<Rightarrow> Inl e
      | Inr (w', \<sigma>', call) \<Rightarrow>
          (case fsWatchRun p ex rest w' \<sigma>' of
             Inl e \<Rightarrow> Inl e
           | Inr (w'', \<sigma>'', calls) \<Rightarrow> Inr (w'', \<sigma>'', (case call of None \<Rightarrow> [] | Some c \<Rightarrow> [c]) @ calls)))"

section \<open>watchFile and watchDirectory\<close>

record fileWatcher =
  fwPath :: path
  fwWatcher :: watcher
  fwVars :: fileWatch

text \<open>The path is the resolved one; the registrations are those of the store before the call.\<close>

definition watchFile ::
  "FileSystem \<Rightarrow> path \<Rightarrow> registrations \<Rightarrow> error + (fileWatcher \<times> registrations)" where
  "watchFile fs p \<sigma> =
     (let vars = watchFileInit fs p
      in case fsWatch fs p FileExists \<sigma> of
           Inl e \<Rightarrow> Inl e
         | Inr (w, \<sigma>') \<Rightarrow> Inr (\<lparr>fwPath = p, fwWatcher = w, fwVars = vars\<rparr>, \<sigma>'))"

text \<open>
  One event of the store for a file watcher: the path watcher handles it, and if it calls
  its callback, the function of \<^verbatim>\<open>watchFile\<close> runs. The last component is the call of
  the caller's callback, if any.
\<close>

definition fileWatcherEvent ::
  "FileSystem \<Rightarrow> storeEvent \<Rightarrow> fileWatcher \<Rightarrow> registrations \<Rightarrow>
     error + (fileWatcher \<times> registrations \<times> (path \<times> FileWatcherEventKind) option)" where
  "fileWatcherEvent fs ev fw \<sigma> =
     (case fsWatchEvent fs (fwPath fw) FileExists (fwWatcher fw) ev \<sigma> of
        Inl e \<Rightarrow> Inl e
      | Inr (w', \<sigma>', None) \<Rightarrow> Inr (fw\<lparr>fwWatcher := w'\<rparr>, \<sigma>', None)
      | Inr (w', \<sigma>', Some call) \<Rightarrow>
          (case watchFileCallback fs (fwPath fw) (fwVars fw) of
             (vars', out) \<Rightarrow> Inr (fw\<lparr>fwWatcher := w', fwVars := vars'\<rparr>, \<sigma>', out)))"

fun fileWatcherRun ::
  "(FileSystem \<times> storeEvent) list \<Rightarrow> fileWatcher \<Rightarrow> registrations \<Rightarrow>
     error + (fileWatcher \<times> registrations \<times> (path \<times> FileWatcherEventKind) list)" where
  "fileWatcherRun [] fw \<sigma> = Inr (fw, \<sigma>, [])"
| "fileWatcherRun ((fs, ev) # rest) fw \<sigma> =
     (case fileWatcherEvent fs ev fw \<sigma> of
        Inl e \<Rightarrow> Inl e
      | Inr (fw', \<sigma>', out) \<Rightarrow>
          (case fileWatcherRun rest fw' \<sigma>' of
             Inl e \<Rightarrow> Inl e
           | Inr (fw'', \<sigma>'', outs) \<Rightarrow>
               Inr (fw'', \<sigma>'', (case out of None \<Rightarrow> [] | Some c \<Rightarrow> [c]) @ outs)))"

text \<open>One event of the store for a directory watcher at the resolved path \<open>p\<close>.\<close>

definition directoryWatcherEvent ::
  "(path \<Rightarrow> string \<Rightarrow> path) \<Rightarrow> FileSystem \<Rightarrow> path \<Rightarrow> watcher \<Rightarrow> storeEvent \<Rightarrow> registrations \<Rightarrow>
     error + (watcher \<times> registrations \<times> path list)" where
  "directoryWatcherEvent resolve fs p w ev \<sigma> =
     (case fsWatchEvent fs p DirectoryExists w ev \<sigma> of
        Inl e \<Rightarrow> Inl e
      | Inr (w', \<sigma>', None) \<Rightarrow> Inr (w', \<sigma>', [])
      | Inr (w', \<sigma>', Some (eventType, filename)) \<Rightarrow>
          Inr (w', \<sigma>', watchDirectoryCallback resolve p eventType filename))"

section \<open>Notions the properties are stated with\<close>

text \<open>The registration at the end of the chain of inner watchers: the one the watcher holds.\<close>

fun heldReg :: "watcher \<Rightarrow> nat" where
  "heldReg (Present r) = r"
| "heldReg (Missing w) = heldReg w"

text \<open>
  The path and the existence test of the call of \<^verbatim>\<open>fsWatch\<close> that made the registration
  the watcher holds: each inner watcher is one directory up and tests with
  \<^verbatim>\<open>directoryExists\<close>.
\<close>

fun heldPath :: "path \<Rightarrow> watcher \<Rightarrow> path" where
  "heldPath p (Present r) = p"
| "heldPath p (Missing w) = heldPath (dirname p) w"

fun heldTest :: "existsFn \<Rightarrow> watcher \<Rightarrow> existsFn" where
  "heldTest ex (Present r) = ex"
| "heldTest ex (Missing w) = heldTest DirectoryExists w"

text \<open>No proper ancestor of the path, the root included, is an existing directory.\<close>

definition noDirectoryAbove :: "FileSystem \<Rightarrow> path \<Rightarrow> bool" where
  "noDirectoryAbove fs p = (\<forall>n \<in> {..<length p}. \<not> directoryExists fs (take n p))"

text \<open>A store is well formed when its root is a directory and not a file.\<close>

definition rootIsDirectory :: "FileSystem \<Rightarrow> bool" where
  "rootIsDirectory fs = (directoryExists fs [] \<and> \<not> fileExists fs [])"

text \<open>
  A list of reported event kinds is consistent with a stored snapshot \<^verbatim>\<open>prevStats\<close> whose
  modification time is not 0 (\<open>True\<close>) or is 0 (\<open>False\<close>): Created is reported only when
  the stored time is 0, Changed and Deleted only when it is not, and a report stores the
  snapshot it was made for.
\<close>

fun consistentKinds :: "bool \<Rightarrow> FileWatcherEventKind list \<Rightarrow> bool" where
  "consistentKinds present [] = True"
| "consistentKinds present (Created # ks) = (\<not> present \<and> consistentKinds True ks)"
| "consistentKinds present (Changed # ks) = (present \<and> consistentKinds True ks)"
| "consistentKinds present (Deleted # ks) = (present \<and> consistentKinds False ks)"

text \<open>
  The spec's count for C2: the number of transitions from absent to present, and from
  present to absent, of a path along a list of states of the store.
\<close>

fun absentToPresent :: "path \<Rightarrow> FileSystem list \<Rightarrow> nat" where
  "absentToPresent p (a # b # rest) =
     (if \<not> fileExists a p \<and> fileExists b p then 1 else 0) + absentToPresent p (b # rest)"
| "absentToPresent p rest = 0"

fun presentToAbsent :: "path \<Rightarrow> FileSystem list \<Rightarrow> nat" where
  "presentToAbsent p (a # b # rest) =
     (if fileExists a p \<and> \<not> fileExists b p then 1 else 0) + presentToAbsent p (b # rest)"
| "presentToAbsent p rest = 0"

fun countKind :: "FileWatcherEventKind \<Rightarrow> (path \<times> FileWatcherEventKind) list \<Rightarrow> nat" where
  "countKind k [] = 0"
| "countKind k (c # cs) = (if snd c = k then 1 else 0) + countKind k cs"

text \<open>At every moment of a trace at most one registration is open.\<close>

definition onePerPrefix :: "action list \<Rightarrow> bool" where
  "onePerPrefix tr = (\<forall>n \<in> {..length tr}. length (liveRegs (take n tr)) \<le> 1)"

text \<open>
  The only registration that can be open is the one the watcher holds, and there never
  was more than one open.
\<close>

definition owned :: "watcher \<Rightarrow> registrations \<Rightarrow> bool" where
  "owned w \<sigma> = ((liveRegs (trace \<sigma>) = [] \<or> liveRegs (trace \<sigma>) = [heldReg w]) \<and> onePerPrefix (trace \<sigma>))"

section \<open>Stores for the examples\<close>

definition fileStats :: "nat \<Rightarrow> stats" where
  "fileStats t = \<lparr>isFile = True, isDirectory = False, mtimeMs = t, fsize = 1\<rparr>"

definition dirStats :: "nat \<Rightarrow> stats" where
  "dirStats t = \<lparr>isFile = False, isDirectory = True, mtimeMs = t, fsize = 0\<rparr>"

text \<open>A case-sensitive store whose entries are those of a table.\<close>

definition storeOf :: "(path \<times> stats) list \<Rightarrow> FileSystem" where
  "storeOf tbl =
     \<lparr>statSync = (\<lambda>p. case map_of tbl p of None \<Rightarrow> Inl ENOENT | Some s \<Rightarrow> Inr s),
      readdirSync = (\<lambda>p. case map_of tbl p of
                           None \<Rightarrow> Inl ENOENT
                         | Some s \<Rightarrow> Inr (map (\<lambda>q. last (fst q))
                                      (filter (\<lambda>q. fst q \<noteq> [] \<and> butlast (fst q) = p) tbl))),
      stringComparer = (\<lambda>a b. if a = b then 0 else 1)\<rparr>"


definition noRegistrations :: registrations where
  "noRegistrations = \<lparr>nextId = 0, trace = []\<rparr>"

section \<open>Snapshots and listings\<close>

lemma entriesLoop_files:
  "files (entriesLoop fs combine p names acc) =
     files acc @ filter (\<lambda>f. fileExists fs (combine p f)) names"
  by (induction names arbitrary: acc)
     (auto simp: addEntry_def fileExists_def getStats_def split: sum.splits)

lemma entriesLoop_directories:
  "directories (entriesLoop fs combine p names acc) =
     directories acc @
       filter (\<lambda>f. \<not> fileExists fs (combine p f) \<and> directoryExists fs (combine p f)) names"
  by (induction names arbitrary: acc)
     (auto simp: addEntry_def fileExists_def directoryExists_def getStats_def split: sum.splits)

text \<open>
  C5. Taking a snapshot has no failing branch: whatever \<^verbatim>\<open>statSync\<close> does, \<^verbatim>\<open>getStats\<close>
  returns a value, and when \<^verbatim>\<open>statSync\<close> throws, that value is \<^verbatim>\<open>undefined\<close>, which
  \<^verbatim>\<open>watchFile\<close> reads as the absent snapshot: the path is neither an existing file nor an
  existing directory and its modification time is 0.
\<close>

theorem getStats_never_fails:
  "getStats fs p = (case statSync fs p of Inl e \<Rightarrow> None | Inr s \<Rightarrow> Some s) \<and>
   (statSync fs p = Inl e \<longrightarrow>
      getStats fs p = None \<and> statsOrNew fs p = newStats \<and>
      \<not> fileExists fs p \<and> \<not> directoryExists fs p \<and> mtimeMs (statsOrNew fs p) = 0)"
  by (auto simp: getStats_def statsOrNew_def fileExists_def directoryExists_def newStats_def
           split: sum.splits)

theorem getStats_never_fails_witness:
  "statSync (storeOf []) [''a''] = Inl ENOENT \<and>
   getStats (storeOf []) [''a''] = None \<and>
   statsOrNew (storeOf []) [''a''] = newStats \<and>
   \<not> fileExists (storeOf []) [''a''] \<and> \<not> directoryExists (storeOf []) [''a''] \<and>
   mtimeMs (statsOrNew (storeOf []) [''a'']) = 0"
proof -
  have h: "statSync (storeOf []) [''a''] = Inl ENOENT"
    by (simp add: storeOf_def)
  from getStats_never_fails [of "storeOf []" "[''a'']" ENOENT] h show ?thesis
    by blast
qed

text \<open>
  C10. \<^verbatim>\<open>getAccessibleFileSystemEntries\<close> has no failing branch. When the directory cannot
  be listed, both lists are empty. Otherwise \<^verbatim>\<open>files\<close> holds, in the order of the listing,
  exactly the entries whose stat succeeds and says file, and \<^verbatim>\<open>directories\<close> exactly the
  entries whose stat succeeds and says directory and not file; an entry whose stat throws
  is in neither.
\<close>

theorem getAccessibleFileSystemEntries_result:
  "getAccessibleFileSystemEntries fs combine p =
     (case readdirSync fs p of
        Inl e \<Rightarrow> \<lparr>files = [], directories = []\<rparr>
      | Inr names \<Rightarrow>
          \<lparr>files = filter (\<lambda>f. \<exists>s. statSync fs (combine p f) = Inr s \<and> isFile s) names,
           directories = filter (\<lambda>f. \<exists>s. statSync fs (combine p f) = Inr s \<and>
                                          \<not> isFile s \<and> isDirectory s) names\<rparr>)"
proof (cases "readdirSync fs p")
  case (Inl e)
  then show ?thesis by (simp add: getAccessibleFileSystemEntries_def)
next
  case (Inr names)
  have f: "(\<lambda>f. fileExists fs (combine p f)) =
           (\<lambda>f. \<exists>s. statSync fs (combine p f) = Inr s \<and> isFile s)"
    by (intro ext) (auto simp: fileExists_def getStats_def split: sum.splits)
  have d: "(\<lambda>f. \<not> fileExists fs (combine p f) \<and> directoryExists fs (combine p f)) =
           (\<lambda>f. \<exists>s. statSync fs (combine p f) = Inr s \<and> \<not> isFile s \<and> isDirectory s)"
    by (intro ext) (auto simp: fileExists_def directoryExists_def getStats_def split: sum.splits)
  have "files (entriesLoop fs combine p names \<lparr>files = [], directories = []\<rparr>) =
          filter (\<lambda>f. \<exists>s. statSync fs (combine p f) = Inr s \<and> isFile s) names"
    using entriesLoop_files [of fs combine p names "\<lparr>files = [], directories = []\<rparr>"]
    by (simp add: f)
  moreover have "directories (entriesLoop fs combine p names \<lparr>files = [], directories = []\<rparr>) =
          filter (\<lambda>f. \<exists>s. statSync fs (combine p f) = Inr s \<and> \<not> isFile s \<and> isDirectory s) names"
    using entriesLoop_directories [of fs combine p names "\<lparr>files = [], directories = []\<rparr>"]
    by (simp add: d)
  ultimately show ?thesis
    using Inr by (simp add: getAccessibleFileSystemEntries_def)
qed

section \<open>The event classifier\<close>

text \<open>
  C1, as the code has it. When the candidate event is Created and \<^verbatim>\<open>exists\<close> is false,
  nothing is reported: \<^verbatim>\<open>exists\<close> becomes true and \<^verbatim>\<open>prevStats\<close> stays. When the
  candidate is Created and \<^verbatim>\<open>exists\<close> is true, the callback is called with Created,
  \<^verbatim>\<open>prevStats\<close> becomes the current stats and \<^verbatim>\<open>exists\<close> stays true.
\<close>

theorem created_suppressed_when_not_believed:
  assumes "mtimeMs (statsOrNew fs p) \<noteq> 0" and "mtimeMs (prevStats w) = 0"
  shows "eventKindOf (mtimeMs (statsOrNew fs p)) (mtimeMs (prevStats w)) = Created \<and>
         watchFileCallback fs p w =
           (if exists w
            then (\<lparr>prevStats = statsOrNew fs p, exists = True\<rparr>, Some (p, Created))
            else (w\<lparr>exists := True\<rparr>, None))"
  using assms by (simp add: watchFileCallback_def eventKindOf_def Let_def)

theorem created_suppressed_when_not_believed_witness:
  "watchFileCallback (storeOf [([''f''], fileStats 5)]) [''f'']
      \<lparr>prevStats = newStats, exists = False\<rparr> =
     (\<lparr>prevStats = newStats, exists = True\<rparr>, None) \<and>
   watchFileCallback (storeOf [([''f''], fileStats 5)]) [''f'']
      \<lparr>prevStats = newStats, exists = True\<rparr> =
     (\<lparr>prevStats = fileStats 5, exists = True\<rparr>, Some ([''f''], Created))"
proof -
  have c: "mtimeMs (statsOrNew (storeOf [([''f''], fileStats 5)]) [''f'']) \<noteq> 0"
    by (simp add: statsOrNew_def getStats_def storeOf_def fileStats_def)
  have a: "mtimeMs (prevStats \<lparr>prevStats = newStats, exists = False\<rparr>) = 0"
    and b: "mtimeMs (prevStats \<lparr>prevStats = newStats, exists = True\<rparr>) = 0"
    by (simp_all add: newStats_def)
  show ?thesis
    using created_suppressed_when_not_believed [OF c a]
          created_suppressed_when_not_believed [OF c b]
    by (simp add: statsOrNew_def getStats_def storeOf_def)
qed

text \<open>
  C1, as the spec has it, fails: with \<^verbatim>\<open>exists\<close> true a candidate Created is reported, and
  with \<^verbatim>\<open>exists\<close> false it is not.
\<close>

theorem created_when_believed_counterexample:
  "eventKindOf (mtimeMs (statsOrNew (storeOf [([''f''], fileStats 5)]) [''f'']))
      (mtimeMs newStats) = Created \<and>
   snd (watchFileCallback (storeOf [([''f''], fileStats 5)]) [''f'']
          \<lparr>prevStats = newStats, exists = True\<rparr>) = Some ([''f''], Created) \<and>
   snd (watchFileCallback (storeOf [([''f''], fileStats 5)]) [''f'']
          \<lparr>prevStats = newStats, exists = False\<rparr>) = None"
  by (simp add: watchFileCallback_def Let_def eventKindOf_def statsOrNew_def getStats_def
                storeOf_def fileStats_def newStats_def)

text \<open>
  C3. When the candidate event is Changed and the current modification time is not greater
  than the previous one, the callback is not called and both variables stay; when it is
  greater, the callback is called with Changed and the current stats are stored.
\<close>

theorem changed_only_when_newer:
  assumes "(mtimeMs (statsOrNew fs p) \<noteq> 0 \<and> mtimeMs (prevStats w) \<noteq> 0) \<or>
           (mtimeMs (statsOrNew fs p) = 0 \<and> mtimeMs (prevStats w) = 0)"
  shows "eventKindOf (mtimeMs (statsOrNew fs p)) (mtimeMs (prevStats w)) = Changed \<and>
         watchFileCallback fs p w =
           (if mtimeMs (statsOrNew fs p) \<le> mtimeMs (prevStats w) then (w, None)
            else (\<lparr>prevStats = statsOrNew fs p, exists = True\<rparr>, Some (p, Changed)))"
proof -
  from assms have k: "eventKindOf (mtimeMs (statsOrNew fs p)) (mtimeMs (prevStats w)) = Changed"
    by (auto simp: eventKindOf_def)
  then show ?thesis
    by (simp add: watchFileCallback_def Let_def)
qed

theorem changed_only_when_newer_witness:
  "watchFileCallback (storeOf [([''f''], fileStats 5)]) [''f'']
      \<lparr>prevStats = fileStats 5, exists = True\<rparr> = (\<lparr>prevStats = fileStats 5, exists = True\<rparr>, None) \<and>
   watchFileCallback (storeOf [([''f''], fileStats 7)]) [''f'']
      \<lparr>prevStats = fileStats 5, exists = True\<rparr> =
     (\<lparr>prevStats = fileStats 7, exists = True\<rparr>, Some ([''f''], Changed))"
proof -
  have a: "(mtimeMs (statsOrNew (storeOf [([''f''], fileStats 5)]) [''f'']) \<noteq> 0 \<and>
            mtimeMs (prevStats \<lparr>prevStats = fileStats 5, exists = True\<rparr>) \<noteq> 0) \<or>
           (mtimeMs (statsOrNew (storeOf [([''f''], fileStats 5)]) [''f'']) = 0 \<and>
            mtimeMs (prevStats \<lparr>prevStats = fileStats 5, exists = True\<rparr>) = 0)"
    by (simp add: statsOrNew_def getStats_def storeOf_def fileStats_def)
  have b: "(mtimeMs (statsOrNew (storeOf [([''f''], fileStats 7)]) [''f'']) \<noteq> 0 \<and>
            mtimeMs (prevStats \<lparr>prevStats = fileStats 5, exists = True\<rparr>) \<noteq> 0) \<or>
           (mtimeMs (statsOrNew (storeOf [([''f''], fileStats 7)]) [''f'']) = 0 \<and>
            mtimeMs (prevStats \<lparr>prevStats = fileStats 5, exists = True\<rparr>) = 0)"
    by (simp add: statsOrNew_def getStats_def storeOf_def fileStats_def)
  show ?thesis
    using changed_only_when_newer [OF a] changed_only_when_newer [OF b]
    by (simp add: statsOrNew_def getStats_def storeOf_def fileStats_def)
qed

section \<open>The directory watcher\<close>

text \<open>
  C8. The function of \<^verbatim>\<open>watchDirectory\<close> calls the caller's callback once with the file
  name resolved against the directory when the event type is rename and a file name
  comes with it, once with the directory's own path when the event type is rename and the
  file name is empty, and not at all when the event type is change. This is what a
  notification delivered to the open registration of a watched directory does.
\<close>

theorem watchDirectory_callback:
  "(filename \<noteq> [] \<longrightarrow>
      watchDirectoryCallback resolve p ''rename'' filename = [resolve p filename]) \<and>
   watchDirectoryCallback resolve p ''rename'' [] = [p] \<and>
   watchDirectoryCallback resolve p ''change'' filename = [] \<and>
   (isLive \<sigma> r \<longrightarrow>
      directoryWatcherEvent resolve fs p (Present r) (Notification r eventType filename) \<sigma> =
        Inr (Present r, \<sigma>, watchDirectoryCallback resolve p eventType filename))"
  by (simp add: watchDirectoryCallback_def directoryWatcherEvent_def)

theorem watchDirectory_callback_witness:
  "watchDirectoryCallback (\<lambda>p f. p @ [f]) [''d''] ''rename'' ''e'' = [[''d'', ''e'']] \<and>
   directoryWatcherEvent (\<lambda>p f. p @ [f]) (storeOf [([], dirStats 1), ([''d''], dirStats 1)])
       [''d''] (Present 0) (Notification 0 ''rename'' ''e'')
       \<lparr>nextId = 1, trace = [Open 0 [''d'']]\<rparr> =
     Inr (Present 0, \<lparr>nextId = 1, trace = [Open 0 [''d'']]\<rparr>, [[''d'', ''e'']])"
proof -
  have l: "isLive \<lparr>nextId = 1, trace = [Open 0 [''d'']]\<rparr> 0"
    by (simp add: isLive_def liveRegs_def)
  have n: "''e'' \<noteq> []" by simp
  show ?thesis
    using watchDirectory_callback
      [of "''e''" "\<lambda>p f. p @ [f]" "[''d'']" "\<lparr>nextId = 1, trace = [Open 0 [''d'']]\<rparr>" 0
          "storeOf [([], dirStats 1), ([''d''], dirStats 1)]" "''rename''"] l n
    by (simp add: watchDirectoryCallback_def)
qed

section \<open>Closing a watcher\<close>

lemma closeWatcher_held: "closeWatcher w \<sigma> = closeReg (heldReg w) \<sigma>"
  by (induction w) (simp_all add: closeWatcher_def)



section \<open>Transitions of the path watcher\<close>




section \<open>Ownership of registrations\<close>


lemma onePerPrefix_snoc:
  "onePerPrefix tr \<Longrightarrow> length (liveRegs (tr @ [a])) \<le> 1 \<Longrightarrow> onePerPrefix (tr @ [a])"
  unfolding onePerPrefix_def
proof (intro ballI)
  fix n
  assume a: "\<forall>n\<in>{..length tr}. length (liveRegs (take n tr)) \<le> 1"
    and b: "length (liveRegs (tr @ [a])) \<le> 1" and "n \<in> {..length (tr @ [a])}"
  then have n: "n \<le> length (tr @ [a])" by simp
  show "length (liveRegs (take n (tr @ [a]))) \<le> 1"
  proof (cases "n \<le> length tr")
    case True
    then show ?thesis using a by simp
  next
    case False
    then have "n = Suc (length tr)" using n by simp
    then show ?thesis using b by simp
  qed
qed

lemma liveRegs_snoc: "liveRegs (tr @ [a]) = applyAction (liveRegs tr) a"
  by (simp add: liveRegs_def)

lemma closeReg_owned:
  assumes "liveRegs (trace \<sigma>) = [] \<or> liveRegs (trace \<sigma>) = [r]" "onePerPrefix (trace \<sigma>)"
  shows "liveRegs (trace (closeReg r \<sigma>)) = [] \<and> onePerPrefix (trace (closeReg r \<sigma>))"
  using assms
  by (auto simp: closeReg_def isLive_def liveRegs_snoc intro!: onePerPrefix_snoc)

lemma openReg_owned:
  assumes "liveRegs (trace \<sigma>) = []" "onePerPrefix (trace \<sigma>)"
  shows "liveRegs (trace (snd (openReg p \<sigma>))) = [fst (openReg p \<sigma>)] \<and> onePerPrefix (trace (snd (openReg p \<sigma>)))"
  using assms
  by (auto simp: openReg_def liveRegs_snoc intro!: onePerPrefix_snoc)

lemma fsWatch_owned:
  "liveRegs (trace \<sigma>) = [] \<Longrightarrow> onePerPrefix (trace \<sigma>) \<Longrightarrow> fsWatch fs p ex \<sigma> = Inr (w, \<sigma>') \<Longrightarrow> owned w \<sigma>' \<and> liveRegs (trace \<sigma>') = [heldReg w]"
  "liveRegs (trace \<sigma>) = [] \<Longrightarrow> onePerPrefix (trace \<sigma>) \<Longrightarrow> watchMissing fs p \<sigma> = Inr (w, \<sigma>') \<Longrightarrow> owned w \<sigma>' \<and> liveRegs (trace \<sigma>') = [heldReg w]"
proof (induction fs p ex \<sigma> and fs p \<sigma> arbitrary: w \<sigma>' and w \<sigma>' rule: fsWatch_watchMissing.induct)
  case (1 fs p ex \<sigma>)
  show ?case
  proof (cases "existsTest ex fs p")
    case True
    then have "(w, \<sigma>') = watchPresent p \<sigma>" using "1.prems"(3) by (simp add: fsWatch.simps)
    then show ?thesis using openReg_owned [OF "1.prems"(1,2), of p]
      by (auto simp: watchPresent_def owned_def split: prod.splits)
  next
    case False
    then have "watchMissing fs p \<sigma> = Inr (w, \<sigma>')" using "1.prems"(3) by (simp add: fsWatch.simps)
    then show ?thesis using "1.IH" False "1.prems" by blast
  qed
next
  case (2 fs p \<sigma>)
  from "2.prems"(3) have ne: "dirname p \<noteq> p"
    by (auto simp: watchMissing.simps split: if_splits)
  with "2.prems"(3) obtain w1 where w: "w = Missing w1"
    and f: "fsWatch fs (dirname p) DirectoryExists \<sigma> = Inr (w1, \<sigma>')"
    by (auto simp: watchMissing.simps split: if_splits sum.splits)
  from "2.IH" [OF ne "2.prems"(1,2) f] show ?case
    by (simp add: w owned_def)
qed

lemma fsWatchEvent_owned:
  "owned w \<sigma> \<Longrightarrow> fsWatchEvent fs p ex w ev \<sigma> = Inr (w', \<sigma>', c) \<Longrightarrow> owned w' \<sigma>'"
proof (induction fs p ex w ev \<sigma> arbitrary: w' \<sigma>' c rule: fsWatchEvent.induct)
  case (1 fs p ex r r' eventType filename \<sigma>)
  then show ?case by (auto split: if_splits)
next
  case (2 fs p ex r r' \<sigma>)
  show ?case
  proof (cases "r' = r \<and> isLive \<sigma> r \<and> \<not> existsTest ex fs p")
    case True
    with "2.prems"(2) have m: "watchMissing fs p (closeWatcher (Present r) \<sigma>) = Inr (w', \<sigma>')"
      by (auto split: sum.splits)
    have "liveRegs (trace (closeWatcher (Present r) \<sigma>)) = [] \<and> onePerPrefix (trace (closeWatcher (Present r) \<sigma>))"
      using closeReg_owned [of \<sigma> r] "2.prems"(1) by (simp add: owned_def closeWatcher_def)
    then show ?thesis using fsWatch_owned(2) [OF _ _ m] by blast
  next
    case False
    then show ?thesis using "2.prems" by auto
  qed
next
  case (3 fs p ex w ev \<sigma>)
  from "3.prems"(2) obtain w1 \<sigma>1 c1 where
    i: "fsWatchEvent fs (dirname p) DirectoryExists w ev \<sigma> = Inr (w1, \<sigma>1, c1)"
    by (auto split: sum.splits)
  have o1: "owned w1 \<sigma>1" using "3.IH" [OF _ i] "3.prems"(1) by (simp add: owned_def)
  show ?case
  proof (cases "\<exists>filename. c1 = Some (''rename'', filename) \<and> stringComparer fs (basename p) filename = 0 \<and> existsTest ex fs p")
    case True
    then have r: "(w', \<sigma>') = watchPresent p (closeWatcher (Missing w1) \<sigma>1)"
      using "3.prems"(2) i by (auto split: prod.splits)
    have "liveRegs (trace (closeWatcher (Missing w1) \<sigma>1)) = [] \<and> onePerPrefix (trace (closeWatcher (Missing w1) \<sigma>1))"
      using closeReg_owned [of \<sigma>1 "heldReg w1"] o1 by (simp add: owned_def closeWatcher_held)
    then show ?thesis using r openReg_owned [of "closeWatcher (Missing w1) \<sigma>1" p]
      by (auto simp: watchPresent_def owned_def split: prod.splits)
  next
    case False
    then have "w' = Missing w1 \<and> \<sigma>' = \<sigma>1"
      using "3.prems"(2) i by (auto split: option.splits if_splits prod.splits)
    then show ?thesis using o1 by (simp add: owned_def)
  qed
qed

lemma fsWatchRun_owned:
  "owned w \<sigma> \<Longrightarrow> fsWatchRun p ex evs w \<sigma> = Inr (w', \<sigma>', cs) \<Longrightarrow> owned w' \<sigma>'"
proof (induction evs arbitrary: w \<sigma> cs)
  case Nil
  then show ?case by simp
next
  case (Cons a evs)
  obtain fs ev where a: "a = (fs, ev)" by (cases a)
  from Cons.prems(2) obtain w1 \<sigma>1 c1 cs1 where
    s: "fsWatchEvent fs p ex w ev \<sigma> = Inr (w1, \<sigma>1, c1)"
    and r: "fsWatchRun p ex evs w1 \<sigma>1 = Inr (w', \<sigma>', cs1)"
    by (auto simp: a split: sum.splits)
  from fsWatchEvent_owned [OF Cons.prems(1) s] Cons.IH r show ?case by blast
qed


lemma fsWatch_opens:
  "fsWatch fs p ex \<sigma> = Inr (w, \<sigma>') \<Longrightarrow>
     heldReg w = nextId \<sigma> \<and> (\<exists>q. trace \<sigma>' = trace \<sigma> @ [Open (nextId \<sigma>) q])"
  "watchMissing fs p \<sigma> = Inr (w, \<sigma>') \<Longrightarrow>
     heldReg w = nextId \<sigma> \<and> (\<exists>q. trace \<sigma>' = trace \<sigma> @ [Open (nextId \<sigma>) q])"
proof (induction fs p ex \<sigma> and fs p \<sigma> arbitrary: w and w rule: fsWatch_watchMissing.induct)
  case (1 fs p ex \<sigma>)
  then show ?case
    by (cases "existsTest ex fs p") (auto simp: fsWatch.simps watchPresent_def openReg_def)
next
  case (2 fs p \<sigma>)
  from "2.prems" have ne: "dirname p \<noteq> p"
    by (auto simp: watchMissing.simps split: if_splits)
  with "2.prems" obtain w1 where w: "w = Missing w1"
    and f: "fsWatch fs (dirname p) DirectoryExists \<sigma> = Inr (w1, \<sigma>')"
    by (auto simp: watchMissing.simps split: if_splits sum.splits)
  from "2.IH" [OF ne f] show ?case by (simp add: w)
qed

text \<open>
  C4. For a path watcher made by \<^verbatim>\<open>fsWatch\<close> on a store with no registration and driven by
  any list of store events: at every moment of the trace at most one registration is open;
  after the run the only registration that can be open is the one the watcher holds, so
  closing the watcher leaves none open; and a transition from Present to Missing closes the
  registration it held and only then opens the next one.
\<close>

theorem one_live_registration:
  assumes "fsWatch fs0 p ex noRegistrations = Inr (w0, \<sigma>0)"
    and "fsWatchRun p ex evs w0 \<sigma>0 = Inr (w, \<sigma>, calls)"
  shows "onePerPrefix (trace \<sigma>) \<and>
         (liveRegs (trace \<sigma>) = [] \<or> liveRegs (trace \<sigma>) = [heldReg w]) \<and>
         liveRegs (trace (closeWatcher w \<sigma>)) = [] \<and>
         (\<forall>fs r w' \<sigma>' c. isLive \<sigma> r \<and> fsWatchEvent fs p ex (Present r) (ErrorEvent r) \<sigma> = Inr (w', \<sigma>', c) \<and>
              \<not> existsTest ex fs p \<longrightarrow>
              (\<exists>q. trace \<sigma>' = trace \<sigma> @ [Close r, Open (heldReg w') q]))"
proof -
  have "liveRegs (trace noRegistrations) = []" "onePerPrefix (trace noRegistrations)"
    by (simp_all add: noRegistrations_def liveRegs_def onePerPrefix_def)
  from fsWatch_owned(1) [OF this assms(1)] have "owned w0 \<sigma>0" by simp
  from fsWatchRun_owned [OF this assms(2)] have o: "owned w \<sigma>" .
  then have a: "onePerPrefix (trace \<sigma>)"
    and b: "liveRegs (trace \<sigma>) = [] \<or> liveRegs (trace \<sigma>) = [heldReg w]"
    by (simp_all add: owned_def)
  have c: "liveRegs (trace (closeWatcher w \<sigma>)) = []"
    using closeReg_owned [OF b a] by (simp add: closeWatcher_held)
  have d: "\<exists>q. trace \<sigma>' = trace \<sigma> @ [Close r, Open (heldReg w') q]"
    if "isLive \<sigma> r \<and> fsWatchEvent fs p ex (Present r) (ErrorEvent r) \<sigma> = Inr (w', \<sigma>', c) \<and>
        \<not> existsTest ex fs p" for fs r w' \<sigma>' c
  proof -
    from that have m: "watchMissing fs p (closeReg r \<sigma>) = Inr (w', \<sigma>')"
      by (auto simp: closeWatcher_def split: sum.splits)
    have t: "trace (closeReg r \<sigma>) = trace \<sigma> @ [Close r]" "nextId (closeReg r \<sigma>) = nextId \<sigma>"
      using that by (simp_all add: closeReg_def)
    from fsWatch_opens(2) [OF m] show ?thesis by (auto simp: t)
  qed
  from a b c d show ?thesis by blast
qed

theorem one_live_registration_witness:
  "fsWatch (storeOf [([], dirStats 1)]) [''f''] FileExists noRegistrations =
     Inr (Missing (Present 0), \<lparr>nextId = 1, trace = [Open 0 []]\<rparr>) \<and>
   fsWatchRun [''f''] FileExists
     [(storeOf [([], dirStats 1), ([''f''], fileStats 5)], Notification 0 ''rename'' ''f''),
      (storeOf [([], dirStats 1)], ErrorEvent 1)]
     (Missing (Present 0)) \<lparr>nextId = 1, trace = [Open 0 []]\<rparr> =
     Inr (Missing (Present 2),
          \<lparr>nextId = 3, trace = [Open 0 [], Close 0, Open 1 [''f''], Close 1, Open 2 []]\<rparr>,
          [(''rename'', []), (''rename'', [])]) \<and>
   onePerPrefix [Open 0 [], Close 0, Open 1 [''f''], Close 1, Open 2 []]"
proof -
  have c: "fsWatch (storeOf [([], dirStats 1)]) [''f''] FileExists noRegistrations =
     Inr (Missing (Present 0), \<lparr>nextId = 1, trace = [Open 0 []]\<rparr>)"
    by (simp add: fsWatch.simps watchMissing.simps storeOf_def fileExists_def directoryExists_def
          getStats_def dirStats_def dirname_def watchPresent_def openReg_def noRegistrations_def)
  have r: "fsWatchRun [''f''] FileExists
     [(storeOf [([], dirStats 1), ([''f''], fileStats 5)], Notification 0 ''rename'' ''f''),
      (storeOf [([], dirStats 1)], ErrorEvent 1)]
     (Missing (Present 0)) \<lparr>nextId = 1, trace = [Open 0 []]\<rparr> =
     Inr (Missing (Present 2),
          \<lparr>nextId = 3, trace = [Open 0 [], Close 0, Open 1 [''f''], Close 1, Open 2 []]\<rparr>,
          [(''rename'', []), (''rename'', [])])"
    by (simp add: fsWatch.simps watchMissing.simps storeOf_def fileExists_def directoryExists_def
          getStats_def dirStats_def fileStats_def dirname_def basename_def watchPresent_def
          openReg_def closeWatcher_def closeReg_def isLive_def liveRegs_def)
  from one_live_registration [OF c r] c r show ?thesis by simp
qed


section \<open>Errors of the path watcher\<close>

lemma noDirectoryAbove_Nil: "noDirectoryAbove fs []"
  by (simp add: noDirectoryAbove_def)

lemma noDirectoryAbove_snoc:
  "noDirectoryAbove fs (xs @ [x]) = (\<not> directoryExists fs xs \<and> noDirectoryAbove fs xs)"
proof -
  have "{..<length (xs @ [x])} = insert (length xs) {..<length xs}"
    by (auto simp: less_Suc_eq)
  then show ?thesis
    by (auto simp: noDirectoryAbove_def)
qed

lemma noDirectoryAbove_rooted:
  assumes "directoryExists fs []"
  shows "noDirectoryAbove fs p \<longleftrightarrow> p = []"
proof (cases p)
  case Nil
  then show ?thesis by (simp add: noDirectoryAbove_Nil)
next
  case (Cons a list)
  then have "0 \<in> {..<length p}" by simp
  moreover have "directoryExists fs (take 0 p)" using assms by simp
  ultimately have "\<not> noDirectoryAbove fs p" unfolding noDirectoryAbove_def by blast
  then show ?thesis using Cons by simp
qed

lemma watchMissing_fails:
  "(\<exists>e. watchMissing fs p \<sigma> = Inl e) \<longleftrightarrow> noDirectoryAbove fs p"
proof (induction p rule: rev_induct)
  case Nil
  then show ?case
    by (simp add: watchMissing.simps dirname_def noDirectoryAbove_Nil)
next
  case (snoc x xs)
  have "(\<exists>e. watchMissing fs (xs @ [x]) \<sigma> = Inl e) \<longleftrightarrow>
        (\<exists>e. fsWatch fs xs DirectoryExists \<sigma> = Inl e)"
    by (auto simp: watchMissing.simps [of fs "xs @ [x]"] dirname_def split: sum.splits)
  also have "\<dots> \<longleftrightarrow> (\<not> directoryExists fs xs \<and> (\<exists>e. watchMissing fs xs \<sigma> = Inl e))"
    by (auto simp: fsWatch.simps [of fs xs])
  finally show ?case using snoc by (simp add: noDirectoryAbove_snoc)
qed

lemma fsWatch_fails:
  "(\<exists>e. fsWatch fs p ex \<sigma> = Inl e) \<longleftrightarrow> (\<not> existsTest ex fs p \<and> noDirectoryAbove fs p)"
  using watchMissing_fails [of fs p \<sigma>] by (auto simp: fsWatch.simps [of fs p])

lemma fsWatch_error:
  "fsWatch fs p ex \<sigma> = Inl e \<Longrightarrow> e = ENOENT"
  "watchMissing fs p \<sigma> = Inl e \<Longrightarrow> e = ENOENT"
proof (induction fs p ex \<sigma> and fs p \<sigma> rule: fsWatch_watchMissing.induct)
  case (1 fs p ex \<sigma>)
  then show ?case
    by (cases "existsTest ex fs p") (auto simp: fsWatch.simps [of fs p])
next
  case (2 fs p \<sigma>)
  then show ?case
    by (cases "dirname p = p") (auto simp: watchMissing.simps [of fs p] split: sum.splits)
qed

lemma fsWatchEvent_fails:
  "(\<exists>e. fsWatchEvent fs p ex w ev \<sigma> = Inl e) \<longleftrightarrow>
     (ev = ErrorEvent (heldReg w) \<and> isLive \<sigma> (heldReg w) \<and>
      \<not> existsTest (heldTest ex w) fs (heldPath p w) \<and> noDirectoryAbove fs (heldPath p w))"
proof (induction w arbitrary: p ex)
  case (Present r)
  show ?case
  proof (cases ev)
    case (Notification r' et fn)
    then show ?thesis by simp
  next
    case (ErrorEvent r')
    show ?thesis
      using watchMissing_fails [of fs p "closeWatcher (Present r) \<sigma>"]
      by (auto simp: ErrorEvent split: sum.splits)
  qed
next
  case (Missing w)
  have "(\<exists>e. fsWatchEvent fs p ex (Missing w) ev \<sigma> = Inl e) \<longleftrightarrow>
        (\<exists>e. fsWatchEvent fs (dirname p) DirectoryExists w ev \<sigma> = Inl e)"
    by (auto split: sum.splits option.splits prod.splits if_splits)
  then show ?case using Missing.IH [of "dirname p" DirectoryExists] by simp
qed

lemma fsWatchEvent_error:
  "fsWatchEvent fs p ex w ev \<sigma> = Inl e \<Longrightarrow> e = ENOENT"
proof (induction w arbitrary: p ex)
  case (Present r)
  then show ?case
    by (cases ev) (auto split: if_splits sum.splits dest: fsWatch_error(2))
next
  case (Missing w)
  then show ?case
    by (auto split: sum.splits option.splits prod.splits if_splits)
qed

lemma heldPath_root: "p = [] \<Longrightarrow> heldPath p w = []"
  by (induction w arbitrary: p) (simp_all add: dirname_def)

lemma heldTest_Missing: "heldTest ex (Missing w) = DirectoryExists"
  by (induction w arbitrary: ex) simp_all

lemma fsWatchEvent_rooted:
  assumes "directoryExists fs []" and "ex = FileExists \<longrightarrow> p \<noteq> []"
  shows "\<exists>w' \<sigma>' c. fsWatchEvent fs p ex w ev \<sigma> = Inr (w', \<sigma>', c)"
proof -
  have "\<not> (\<not> existsTest (heldTest ex w) fs (heldPath p w) \<and> noDirectoryAbove fs (heldPath p w))"
  proof
    assume a: "\<not> existsTest (heldTest ex w) fs (heldPath p w) \<and> noDirectoryAbove fs (heldPath p w)"
    then have "heldPath p w = []"
      using noDirectoryAbove_rooted [OF assms(1)] by blast
    show False
    proof (cases w)
      case (Present r)
      with a \<open>heldPath p w = []\<close> assms show ?thesis by (cases ex) auto
    next
      case (Missing w1)
      with a \<open>heldPath p w = []\<close> assms(1) show ?thesis
        by (simp add: heldTest_Missing [of ex w1, simplified])
    qed
  qed
  then have "\<not> (\<exists>e. fsWatchEvent fs p ex w ev \<sigma> = Inl e)"
    using fsWatchEvent_fails [of fs p ex w ev \<sigma>] by blast
  then show ?thesis
    by (cases "fsWatchEvent fs p ex w ev \<sigma>") auto
qed

text \<open>
  C6, as the code has it. The only error is \<^verbatim>\<open>ENOENT\<close> of \<^verbatim>\<open>watchMissing\<close>. The call of
  \<^verbatim>\<open>fsWatch\<close> throws it exactly when the path fails its existence test and no proper
  ancestor is an existing directory. After that, a handler throws it exactly when an error
  event reaches the registration the watcher holds while the path of that registration
  fails its existence test and no proper ancestor of it is an existing directory. So on a
  store whose root is a directory and not a file, \<^verbatim>\<open>fsWatch\<close> throws exactly for a file
  watcher on the root, and a watcher it returned handles every list of events delivered
  while the root is a directory without throwing.
\<close>

theorem path_watcher_errors:
  "((\<exists>e. fsWatch fs0 p ex \<sigma>0 = Inl e) \<longleftrightarrow> (\<not> existsTest ex fs0 p \<and> noDirectoryAbove fs0 p)) \<and>
   (fsWatch fs0 p ex \<sigma>0 = Inl e \<longrightarrow> e = ENOENT) \<and>
   ((\<exists>e. fsWatchEvent fs p ex w ev \<sigma> = Inl e) \<longleftrightarrow>
      (ev = ErrorEvent (heldReg w) \<and> isLive \<sigma> (heldReg w) \<and>
       \<not> existsTest (heldTest ex w) fs (heldPath p w) \<and> noDirectoryAbove fs (heldPath p w))) \<and>
   (fsWatchEvent fs p ex w ev \<sigma> = Inl e \<longrightarrow> e = ENOENT) \<and>
   (rootIsDirectory fs0 \<longrightarrow>
      ((\<exists>e. fsWatch fs0 p ex \<sigma>0 = Inl e) \<longleftrightarrow> (p = [] \<and> ex = FileExists))) \<and>
   (rootIsDirectory fs0 \<and> (\<forall>x \<in> set evs. directoryExists (fst x) []) \<and>
    fsWatch fs0 p ex \<sigma>0 = Inr (w0, \<sigma>1) \<longrightarrow>
      (\<exists>w' \<sigma>' calls. fsWatchRun p ex evs w0 \<sigma>1 = Inr (w', \<sigma>', calls)))"
proof -
  have rooted: "(\<exists>e. fsWatch fs0 p ex \<sigma>0 = Inl e) \<longleftrightarrow> (p = [] \<and> ex = FileExists)"
    if r: "rootIsDirectory fs0"
  proof -
    have "noDirectoryAbove fs0 p \<longleftrightarrow> p = []"
      using r noDirectoryAbove_rooted [of fs0 p] by (simp add: rootIsDirectory_def)
    then show ?thesis
      using r fsWatch_fails [of fs0 p ex \<sigma>0] by (cases ex) (auto simp: rootIsDirectory_def)
  qed
  have run: "\<exists>w' \<sigma>' calls. fsWatchRun p ex evs w0 \<sigma>1 = Inr (w', \<sigma>', calls)"
    if h: "rootIsDirectory fs0 \<and> (\<forall>x \<in> set evs. directoryExists (fst x) []) \<and>
           fsWatch fs0 p ex \<sigma>0 = Inr (w0, \<sigma>1)"
  proof -
    from h have ne: "ex = FileExists \<longrightarrow> p \<noteq> []"
      using rooted [of] by auto
    from h have "\<forall>x \<in> set evs. directoryExists (fst x) []" by simp
    then show ?thesis
    proof (induction evs arbitrary: w0 \<sigma>1)
      case Nil
      then show ?case by simp
    next
      case (Cons a evs)
      obtain fs ev where a: "a = (fs, ev)" by (cases a)
      with Cons.prems have "directoryExists fs []" by simp
      from fsWatchEvent_rooted [OF this ne] obtain w' \<sigma>' c
        where s: "fsWatchEvent fs p ex w0 ev \<sigma>1 = Inr (w', \<sigma>', c)" by blast
      from Cons.IH [of w' \<sigma>'] Cons.prems obtain w2 \<sigma>2 calls
        where "fsWatchRun p ex evs w' \<sigma>' = Inr (w2, \<sigma>2, calls)" by auto
      with s show ?case by (simp add: a)
    qed
  qed
  show ?thesis
    using fsWatch_fails [of fs0 p ex \<sigma>0] fsWatch_error(1) [of fs0 p ex \<sigma>0 e]
      fsWatchEvent_fails [of fs p ex w ev \<sigma>] fsWatchEvent_error [of fs p ex w ev \<sigma> e]
      rooted run
    by blast
qed

theorem path_watcher_errors_witness:
  "(\<exists>e. fsWatchEvent (storeOf []) [] DirectoryExists (Present 0) (ErrorEvent 0)
          \<lparr>nextId = 1, trace = [Open 0 []]\<rparr> = Inl e) \<and>
   (\<exists>e. fsWatch (storeOf [([], dirStats 1)]) [] FileExists noRegistrations = Inl e) \<and>
   (\<exists>w \<sigma> calls. fsWatchRun [''f''] FileExists
     [(storeOf [([], dirStats 1), ([''f''], fileStats 5)], Notification 0 ''rename'' ''f''),
      (storeOf [([], dirStats 1)], ErrorEvent 1)]
     (Missing (Present 0)) \<lparr>nextId = 1, trace = [Open 0 []]\<rparr> = Inr (w, \<sigma>, calls))"
proof -
  have a: "ErrorEvent 0 = ErrorEvent (heldReg (Present 0)) \<and>
      isLive \<lparr>nextId = 1, trace = [Open 0 []]\<rparr> (heldReg (Present 0)) \<and>
      \<not> existsTest (heldTest DirectoryExists (Present 0)) (storeOf []) (heldPath [] (Present 0)) \<and>
      noDirectoryAbove (storeOf []) (heldPath [] (Present 0))"
    by (simp add: isLive_def liveRegs_def storeOf_def directoryExists_def getStats_def
          noDirectoryAbove_def)
  note step = path_watcher_errors [THEN conjunct2, THEN conjunct2, THEN conjunct1, THEN iffD2, OF a]
  have r: "rootIsDirectory (storeOf [([], dirStats 1)])"
    by (simp add: rootIsDirectory_def storeOf_def fileExists_def directoryExists_def
          getStats_def dirStats_def)
  have b: "([]::path) = [] \<and> FileExists = FileExists" by simp
  note construct = path_watcher_errors [THEN conjunct2, THEN conjunct2, THEN conjunct2,
      THEN conjunct2, THEN conjunct1, rule_format, OF r, THEN iffD2, OF b]
  have d: "\<forall>x \<in> set [(storeOf [([], dirStats 1), ([''f''], fileStats 5)], Notification 0 ''rename'' ''f''),
      (storeOf [([], dirStats 1)], ErrorEvent 1)]. directoryExists (fst x) []"
    by (simp add: storeOf_def directoryExists_def getStats_def dirStats_def)
  have c: "fsWatch (storeOf [([], dirStats 1)]) [''f''] FileExists noRegistrations =
     Inr (Missing (Present 0), \<lparr>nextId = 1, trace = [Open 0 []]\<rparr>)"
    by (simp add: fsWatch.simps watchMissing.simps storeOf_def fileExists_def directoryExists_def
          getStats_def dirStats_def dirname_def watchPresent_def openReg_def noRegistrations_def)
  note run = path_watcher_errors [THEN conjunct2, THEN conjunct2, THEN conjunct2,
      THEN conjunct2, THEN conjunct2, rule_format, OF conjI [OF r conjI [OF d c]]]
  from step construct run show ?thesis by blast
qed

text \<open>
  C6, as the spec has it, fails: a directory watcher on the root, and a file watcher on
  \<open>/a/f\<close>, are made without error; then the error event is delivered on a store in which
  nothing exists, and the handler throws \<^verbatim>\<open>ENOENT\<close>.
\<close>

theorem error_after_construction_counterexample:
  "fsWatch (storeOf [([], dirStats 1)]) [] DirectoryExists noRegistrations =
     Inr (Present 0, \<lparr>nextId = 1, trace = [Open 0 []]\<rparr>) \<and>
   fsWatchRun [] DirectoryExists [(storeOf [], ErrorEvent 0)]
     (Present 0) \<lparr>nextId = 1, trace = [Open 0 []]\<rparr> = Inl ENOENT \<and>
   fsWatch (storeOf [([], dirStats 1), ([''a''], dirStats 1), ([''a'', ''f''], fileStats 5)])
     [''a'', ''f''] FileExists noRegistrations =
     Inr (Present 0, \<lparr>nextId = 1, trace = [Open 0 [''a'', ''f'']]\<rparr>) \<and>
   fsWatchRun [''a'', ''f''] FileExists [(storeOf [], ErrorEvent 0)]
     (Present 0) \<lparr>nextId = 1, trace = [Open 0 [''a'', ''f'']]\<rparr> = Inl ENOENT"
  by (simp add: fsWatch.simps watchMissing.simps storeOf_def fileExists_def directoryExists_def
        getStats_def dirStats_def fileStats_def dirname_def watchPresent_def openReg_def
        noRegistrations_def closeWatcher_def closeReg_def isLive_def liveRegs_def)


section \<open>The events of a file watcher\<close>


lemma consistentKinds_Cons:
  "consistentKinds b (k # ks) = (consistentKinds b [k] \<and> consistentKinds (k \<noteq> Deleted) ks)"
  by (cases k) simp_all

lemma watchFileCallback_step:
  assumes "watchFileCallback fs p v = (v', out)"
  shows "case out of
           None \<Rightarrow> (mtimeMs (prevStats v') \<noteq> 0) = (mtimeMs (prevStats v) \<noteq> 0)
         | Some (q, k) \<Rightarrow> consistentKinds (mtimeMs (prevStats v) \<noteq> 0) [k] \<and>
                          (mtimeMs (prevStats v') \<noteq> 0) = (k \<noteq> Deleted)"
  using assms
  by (auto simp: watchFileCallback_def Let_def eventKindOf_def split: if_splits)

lemma fileWatcherEvent_step:
  assumes "fileWatcherEvent fs ev fw \<sigma> = Inr (fw', \<sigma>', out)"
  shows "case out of
           None \<Rightarrow> (mtimeMs (prevStats (fwVars fw')) \<noteq> 0) = (mtimeMs (prevStats (fwVars fw)) \<noteq> 0)
         | Some (q, k) \<Rightarrow> consistentKinds (mtimeMs (prevStats (fwVars fw)) \<noteq> 0) [k] \<and>
                          (mtimeMs (prevStats (fwVars fw')) \<noteq> 0) = (k \<noteq> Deleted)"
proof (cases "fsWatchEvent fs (fwPath fw) FileExists (fwWatcher fw) ev \<sigma>")
  case (Inl e)
  then show ?thesis using assms by (simp add: fileWatcherEvent_def)
next
  case (Inr res)
  obtain w1 \<sigma>1 c where res: "res = (w1, \<sigma>1, c)" by (cases res)
  show ?thesis
  proof (cases c)
    case None
    then show ?thesis using assms Inr res by (auto simp: fileWatcherEvent_def)
  next
    case (Some call)
    obtain v1 o1 where cb: "watchFileCallback fs (fwPath fw) (fwVars fw) = (v1, o1)"
      by (cases "watchFileCallback fs (fwPath fw) (fwVars fw)")
    with assms Inr res Some have "fwVars fw' = v1" "out = o1"
      by (auto simp: fileWatcherEvent_def)
    with watchFileCallback_step [OF cb] show ?thesis by (auto split: option.splits)
  qed
qed

lemma fileWatcherRun_consistent:
  "fileWatcherRun evs fw \<sigma> = Inr (fw', \<sigma>', outs) \<Longrightarrow>
     consistentKinds (mtimeMs (prevStats (fwVars fw)) \<noteq> 0) (map snd outs)"
proof (induction evs arbitrary: fw \<sigma> outs)
  case Nil
  then show ?case by simp
next
  case (Cons a evs)
  obtain fs ev where a: "a = (fs, ev)" by (cases a)
  from Cons.prems obtain fw1 \<sigma>1 out outs1 where
    s: "fileWatcherEvent fs ev fw \<sigma> = Inr (fw1, \<sigma>1, out)"
    and r: "fileWatcherRun evs fw1 \<sigma>1 = Inr (fw', \<sigma>', outs1)"
    and o: "outs = (case out of None \<Rightarrow> [] | Some c \<Rightarrow> [c]) @ outs1"
    by (auto simp: a split: sum.splits)
  note ih = Cons.IH [OF r]
  show ?case
  proof (cases out)
    case None
    with fileWatcherEvent_step [OF s] ih o show ?thesis by simp
  next
    case (Some c)
    obtain q k where c: "c = (q, k)" by (cases c)
    from fileWatcherEvent_step [OF s] Some c
    have "consistentKinds (mtimeMs (prevStats (fwVars fw)) \<noteq> 0) [k]"
      and "(mtimeMs (prevStats (fwVars fw1)) \<noteq> 0) = (k \<noteq> Deleted)" by simp_all
    with ih o Some c show ?thesis
      using consistentKinds_Cons [of "mtimeMs (prevStats (fwVars fw)) \<noteq> 0" k "map snd outs1"]
      by simp
  qed
qed

text \<open>
  C2, as the code has it. One run of the callback of \<^verbatim>\<open>watchFile\<close> compares the
  modification time it finds with the one of the stored snapshot \<^verbatim>\<open>prevStats\<close>, which is
  the snapshot of the last report, or of the call of \<^verbatim>\<open>watchFile\<close> before any report:
  \<^item> stored not 0 and found 0: Deleted is reported, always;
  \<^item> stored 0 and found not 0: Created is reported when \<^verbatim>\<open>exists\<close> is true; when it is
    false nothing is reported, \<^verbatim>\<open>exists\<close> becomes true and the stored snapshot stays, so
    the next run that finds the file reports Created: an allocate-then-write sequence
    gets exactly one Created;
  \<^item> otherwise Changed is reported exactly when the found time is strictly greater than
    the stored one.
  For every list of store events handled by a file watcher, the reported kinds are
  therefore consistent with the stored snapshot: Created only when its time is 0, Changed
  and Deleted only when it is not, so two Created are never reported without a Deleted
  between them, nor two Deleted without a Created.
\<close>

theorem watchFile_events:
  "(fileWatcherRun evs fw \<sigma> = Inr (fw', \<sigma>', outs) \<longrightarrow>
      consistentKinds (mtimeMs (prevStats (fwVars fw)) \<noteq> 0) (map snd outs)) \<and>
   (watchFileCallback fs p v = (v', Some (q, Changed)) \<longrightarrow>
      mtimeMs (prevStats v) < mtimeMs (statsOrNew fs p) \<and> prevStats v' = statsOrNew fs p) \<and>
   (mtimeMs (prevStats u) = 0 \<and> \<not> exists u \<and>
    mtimeMs (statsOrNew fs1 p) \<noteq> 0 \<and> mtimeMs (statsOrNew fs2 p) \<noteq> 0 \<longrightarrow>
      watchFileCallback fs1 p u = (u\<lparr>exists := True\<rparr>, None) \<and>
      watchFileCallback fs2 p (u\<lparr>exists := True\<rparr>) =
        (\<lparr>prevStats = statsOrNew fs2 p, exists = True\<rparr>, Some (p, Created))) \<and>
   watchFileCallback fs p v =
     (if mtimeMs (prevStats v) \<noteq> 0 \<and> mtimeMs (statsOrNew fs p) = 0
      then (\<lparr>prevStats = statsOrNew fs p, exists = False\<rparr>, Some (p, Deleted))
      else if mtimeMs (prevStats v) = 0 \<and> mtimeMs (statsOrNew fs p) \<noteq> 0
      then (if exists v
            then (\<lparr>prevStats = statsOrNew fs p, exists = True\<rparr>, Some (p, Created))
            else (v\<lparr>exists := True\<rparr>, None))
      else if mtimeMs (prevStats v) < mtimeMs (statsOrNew fs p)
      then (\<lparr>prevStats = statsOrNew fs p, exists = True\<rparr>, Some (p, Changed))
      else (v, None))"
proof (intro conjI impI)
  show "watchFileCallback fs p v =
     (if mtimeMs (prevStats v) \<noteq> 0 \<and> mtimeMs (statsOrNew fs p) = 0
      then (\<lparr>prevStats = statsOrNew fs p, exists = False\<rparr>, Some (p, Deleted))
      else if mtimeMs (prevStats v) = 0 \<and> mtimeMs (statsOrNew fs p) \<noteq> 0
      then (if exists v
            then (\<lparr>prevStats = statsOrNew fs p, exists = True\<rparr>, Some (p, Created))
            else (v\<lparr>exists := True\<rparr>, None))
      else if mtimeMs (prevStats v) < mtimeMs (statsOrNew fs p)
      then (\<lparr>prevStats = statsOrNew fs p, exists = True\<rparr>, Some (p, Changed))
      else (v, None))"
    by (auto simp: watchFileCallback_def Let_def eventKindOf_def)
next
  assume "fileWatcherRun evs fw \<sigma> = Inr (fw', \<sigma>', outs)"
  then show "consistentKinds (mtimeMs (prevStats (fwVars fw)) \<noteq> 0) (map snd outs)"
    by (rule fileWatcherRun_consistent)
next
  assume a: "watchFileCallback fs p v = (v', Some (q, Changed))"
  then show "mtimeMs (prevStats v) < mtimeMs (statsOrNew fs p)"
    by (auto simp: watchFileCallback_def Let_def split: if_splits)
  from a show "prevStats v' = statsOrNew fs p"
    by (auto simp: watchFileCallback_def Let_def split: if_splits)
next
  assume a: "mtimeMs (prevStats u) = 0 \<and> \<not> exists u \<and>
    mtimeMs (statsOrNew fs1 p) \<noteq> 0 \<and> mtimeMs (statsOrNew fs2 p) \<noteq> 0"
  then show "watchFileCallback fs1 p u = (u\<lparr>exists := True\<rparr>, None)"
    by (simp add: watchFileCallback_def Let_def eventKindOf_def)
  from a show "watchFileCallback fs2 p (u\<lparr>exists := True\<rparr>) =
        (\<lparr>prevStats = statsOrNew fs2 p, exists = True\<rparr>, Some (p, Created))"
    by (simp add: watchFileCallback_def Let_def eventKindOf_def)
qed

text \<open>The definitions that evaluate a run on a store given by a table.\<close>

lemmas ev_defs = fsWatch.simps watchMissing.simps storeOf_def fileExists_def directoryExists_def
          getStats_def statsOrNew_def dirStats_def fileStats_def newStats_def dirname_def basename_def watchPresent_def
          openReg_def closeWatcher_def closeReg_def isLive_def liveRegs_def
          fileWatcherEvent_def watchFileCallback_def eventKindOf_def Let_def watchFile_def watchFileInit_def noRegistrations_def

text \<open>
  C2, as the spec has it, fails. A file watcher is made for \<open>/f\<close> while it is absent; the
  file appears and one notification is delivered; the file disappears and the error event
  is delivered. The path went from absent to present once and from present to absent
  once, and the callback was never called.
\<close>

theorem watchFile_events_counterexample:
  "watchFile (storeOf [([], dirStats 1)]) [''f''] noRegistrations =
     Inr (\<lparr>fwPath = [''f''], fwWatcher = Missing (Present 0),
           fwVars = \<lparr>prevStats = newStats, exists = False\<rparr>\<rparr>,
          \<lparr>nextId = 1, trace = [Open 0 []]\<rparr>) \<and>
   fileWatcherRun
     [(storeOf [([], dirStats 1), ([''f''], fileStats 5)], Notification 0 ''rename'' ''f''),
      (storeOf [([], dirStats 1)], ErrorEvent 1)]
     \<lparr>fwPath = [''f''], fwWatcher = Missing (Present 0),
       fwVars = \<lparr>prevStats = newStats, exists = False\<rparr>\<rparr>
     \<lparr>nextId = 1, trace = [Open 0 []]\<rparr> =
     Inr (\<lparr>fwPath = [''f''], fwWatcher = Missing (Present 2),
           fwVars = \<lparr>prevStats = newStats, exists = True\<rparr>\<rparr>,
          \<lparr>nextId = 3, trace = [Open 0 [], Close 0, Open 1 [''f''], Close 1, Open 2 []]\<rparr>,
          []) \<and>
   absentToPresent [''f'']
     [storeOf [([], dirStats 1)], storeOf [([], dirStats 1), ([''f''], fileStats 5)],
      storeOf [([], dirStats 1)]] = 1 \<and>
   presentToAbsent [''f'']
     [storeOf [([], dirStats 1)], storeOf [([], dirStats 1), ([''f''], fileStats 5)],
      storeOf [([], dirStats 1)]] = 1 \<and>
   countKind Created [] = 0 \<and> countKind Deleted [] = 0"
  by (simp add: ev_defs)


theorem watchFile_events_witness:
  "fileWatcherRun
     [(storeOf [([], dirStats 1), ([''f''], fileStats 5)], Notification 0 ''rename'' ''f''),
      (storeOf [([], dirStats 1), ([''f''], fileStats 5)], Notification 1 ''change'' ''f''),
      (storeOf [([], dirStats 1), ([''f''], fileStats 7)], Notification 1 ''change'' ''f''),
      (storeOf [([], dirStats 1), ([''f''], fileStats 7)], Notification 1 ''change'' ''f''),
      (storeOf [([], dirStats 1)], ErrorEvent 1)]
     \<lparr>fwPath = [''f''], fwWatcher = Missing (Present 0),
       fwVars = \<lparr>prevStats = newStats, exists = False\<rparr>\<rparr>
     \<lparr>nextId = 1, trace = [Open 0 []]\<rparr> =
     Inr (\<lparr>fwPath = [''f''], fwWatcher = Missing (Present 2),
           fwVars = \<lparr>prevStats = newStats, exists = False\<rparr>\<rparr>,
          \<lparr>nextId = 3, trace = [Open 0 [], Close 0, Open 1 [''f''], Close 1, Open 2 []]\<rparr>,
          [([''f''], Created), ([''f''], Changed), ([''f''], Deleted)]) \<and>
   consistentKinds False [Created, Changed, Deleted] \<and>
   mtimeMs (fileStats 5) < mtimeMs (statsOrNew (storeOf [([], dirStats 1), ([''f''], fileStats 7)]) [''f'']) \<and>
   watchFileCallback (storeOf [([], dirStats 1), ([''f''], fileStats 5)]) [''f'']
       \<lparr>prevStats = newStats, exists = False\<rparr> = (\<lparr>prevStats = newStats, exists = True\<rparr>, None) \<and>
   watchFileCallback (storeOf [([], dirStats 1), ([''f''], fileStats 7)]) [''f'']
       \<lparr>prevStats = newStats, exists = True\<rparr> =
     (\<lparr>prevStats = fileStats 7, exists = True\<rparr>, Some ([''f''], Created))"
proof -
  have run: "fileWatcherRun
     [(storeOf [([], dirStats 1), ([''f''], fileStats 5)], Notification 0 ''rename'' ''f''),
      (storeOf [([], dirStats 1), ([''f''], fileStats 5)], Notification 1 ''change'' ''f''),
      (storeOf [([], dirStats 1), ([''f''], fileStats 7)], Notification 1 ''change'' ''f''),
      (storeOf [([], dirStats 1), ([''f''], fileStats 7)], Notification 1 ''change'' ''f''),
      (storeOf [([], dirStats 1)], ErrorEvent 1)]
     \<lparr>fwPath = [''f''], fwWatcher = Missing (Present 0),
       fwVars = \<lparr>prevStats = newStats, exists = False\<rparr>\<rparr>
     \<lparr>nextId = 1, trace = [Open 0 []]\<rparr> =
     Inr (\<lparr>fwPath = [''f''], fwWatcher = Missing (Present 2),
           fwVars = \<lparr>prevStats = newStats, exists = False\<rparr>\<rparr>,
          \<lparr>nextId = 3, trace = [Open 0 [], Close 0, Open 1 [''f''], Close 1, Open 2 []]\<rparr>,
          [([''f''], Created), ([''f''], Changed), ([''f''], Deleted)])"
    by (simp add: ev_defs)
  have ch: "watchFileCallback (storeOf [([], dirStats 1), ([''f''], fileStats 7)]) [''f'']
       \<lparr>prevStats = fileStats 5, exists = True\<rparr> =
     (\<lparr>prevStats = fileStats 7, exists = True\<rparr>, Some ([''f''], Changed))"
    by (simp add: ev_defs)
  have al: "mtimeMs (prevStats \<lparr>prevStats = newStats, exists = False\<rparr>) = 0 \<and>
      \<not> exists \<lparr>prevStats = newStats, exists = False\<rparr> \<and>
      mtimeMs (statsOrNew (storeOf [([], dirStats 1), ([''f''], fileStats 5)]) [''f'']) \<noteq> 0 \<and>
      mtimeMs (statsOrNew (storeOf [([], dirStats 1), ([''f''], fileStats 7)]) [''f'']) \<noteq> 0"
    by (simp add: ev_defs)
  note t1 = watchFile_events [THEN conjunct1, rule_format, OF run]
  note t2 = watchFile_events [THEN conjunct2, THEN conjunct1, rule_format, OF ch]
  note t3 = watchFile_events [THEN conjunct2, THEN conjunct2, THEN conjunct1, rule_format, OF al]
  from t1 have c1: "consistentKinds False [Created, Changed, Deleted]"
    by (simp add: newStats_def)
  from t2 [THEN conjunct1] have c2: "mtimeMs (fileStats 5) <
      mtimeMs (statsOrNew (storeOf [([], dirStats 1), ([''f''], fileStats 7)]) [''f''])"
    by simp
  from t3 have c3: "watchFileCallback (storeOf [([], dirStats 1), ([''f''], fileStats 5)]) [''f'']
       \<lparr>prevStats = newStats, exists = False\<rparr> = (\<lparr>prevStats = newStats, exists = True\<rparr>, None) \<and>
   watchFileCallback (storeOf [([], dirStats 1), ([''f''], fileStats 7)]) [''f'']
       \<lparr>prevStats = newStats, exists = True\<rparr> =
     (\<lparr>prevStats = fileStats 7, exists = True\<rparr>, Some ([''f''], Created))"
    by (simp add: statsOrNew_def getStats_def storeOf_def)
  from run c1 c2 c3 show ?thesis by blast
qed

end
